theory Spec2Isabelle
  imports Complex_Main "HOL-Library.Word"
begin

section \<open>Data model\<close>

text \<open>
  The program is a single Python file, \<^verbatim>\<open>StarProgrammer_LightCurve_GUI.py\<close>. Its core is
  the serial transport (\<^verbatim>\<open>SerialManager\<close>) and the plot buffer kept by \<^verbatim>\<open>MainWindow\<close>.

  A Python \<^verbatim>\<open>str\<close> is a sequence of Unicode code points and is modelled as a list of
  natural numbers; \<^verbatim>\<open>bytes\<close> are lists of 8-bit words. A parsed value is a \<open>pyfloat\<close>:
  a finite binary64 number, given by the real number it is, or an infinity or NaN; the
  sign of zero is not kept. Timestamps are real numbers, their subtraction exact.
\<close>

type_synonym str = "nat list"
type_synonym byte = "8 word"

definition ustr :: "string \<Rightarrow> str" where
  "ustr s = map of_char s"

datatype pyfloat = Finite real | PosInf | NegInf | NaN

datatype rt_msg = Serial_not_connected | Serial_write_failed string

datatype exn = IndexError | RuntimeError rt_msg

subsection \<open>Strings and bytes\<close>

text \<open>\<^verbatim>\<open>str.isspace\<close> of one character, as \<^verbatim>\<open>str.strip()\<close> and the regular expression
  class \<^verbatim>\<open>\s\<close> use it on \<^verbatim>\<open>str\<close>: the Unicode whitespace characters.\<close>

definition is_space :: "nat \<Rightarrow> bool" where
  "is_space c \<longleftrightarrow>
     (0x09 \<le> c \<and> c \<le> 0x0D) \<or> (0x1C \<le> c \<and> c \<le> 0x20) \<or> c = 0x85 \<or> c = 0xA0 \<or>
     c = 0x1680 \<or> (0x2000 \<le> c \<and> c \<le> 0x200A) \<or> c = 0x2028 \<or> c = 0x2029 \<or>
     c = 0x202F \<or> c = 0x205F \<or> c = 0x3000"

text \<open>\<^verbatim>\<open>str.strip()\<close> with no argument.\<close>

definition strip :: "str \<Rightarrow> str" where
  "strip s = rev (dropWhile is_space (rev (dropWhile is_space s)))"

text \<open>\<^verbatim>\<open>str.encode("utf-8")\<close>: a surrogate code point raises UnicodeEncodeError (None).\<close>

definition encode_code_point :: "nat \<Rightarrow> byte list option" where
  "encode_code_point c =
     (if c < 0x80 then Some [of_nat c]
      else if c < 0x800 then Some [of_nat (0xC0 + c div 64), of_nat (0x80 + c mod 64)]
      else if c < 0x10000 then
        (if 0xD800 \<le> c \<and> c \<le> 0xDFFF then None
         else Some [of_nat (0xE0 + c div 4096), of_nat (0x80 + c div 64 mod 64),
                    of_nat (0x80 + c mod 64)])
      else if c < 0x110000 then
        Some [of_nat (0xF0 + c div 262144), of_nat (0x80 + c div 4096 mod 64),
              of_nat (0x80 + c div 64 mod 64), of_nat (0x80 + c mod 64)]
      else None)"

fun utf8_encode :: "str \<Rightarrow> byte list option" where
  "utf8_encode [] = Some []"
| "utf8_encode (c # cs) =
     (case encode_code_point c of
        None \<Rightarrow> None
      | Some bs \<Rightarrow> (case utf8_encode cs of None \<Rightarrow> None | Some r \<Rightarrow> Some (bs @ r)))"

text \<open>\<^verbatim>\<open>bytes.decode("utf-8", errors="replace")\<close>, as CPython's decoder does it: an
  invalid start byte, or a sequence cut by a byte that cannot continue it, becomes one
  U+FFFD and decoding resumes at the offending byte; a valid prefix cut by the end of the
  input becomes one U+FFFD. Overlong forms, surrogates and code points above U+10FFFF are
  invalid.\<close>

definition is_continuation :: "byte \<Rightarrow> bool" where
  "is_continuation b \<longleftrightarrow> 0x80 \<le> b \<and> b \<le> 0xBF"

definition second_ok :: "byte \<Rightarrow> byte \<Rightarrow> bool" where
  "second_ok b c2 \<longleftrightarrow>
     is_continuation c2 \<and> \<not> (b = 0xE0 \<and> c2 < 0xA0) \<and> \<not> (b = 0xED \<and> 0xA0 \<le> c2) \<and>
     \<not> (b = 0xF0 \<and> c2 < 0x90) \<and> \<not> (b = 0xF4 \<and> 0x90 \<le> c2)"

definition replacement :: nat where
  "replacement = 0xFFFD"

fun utf8_decode_replace :: "byte list \<Rightarrow> str" where
  "utf8_decode_replace [] = []"
| "utf8_decode_replace (b # bs) =
     (if b < 0x80 then unat b # utf8_decode_replace bs
      else if b < 0xC2 then replacement # utf8_decode_replace bs
      else if b < 0xE0 then
        (case bs of
           [] \<Rightarrow> [replacement]
         | c2 # r2 \<Rightarrow>
             if is_continuation c2
             then ((unat b - 0xC0) * 64 + (unat c2 - 0x80)) # utf8_decode_replace r2
             else replacement # utf8_decode_replace bs)
      else if b < 0xF0 then
        (case bs of
           [] \<Rightarrow> [replacement]
         | c2 # r2 \<Rightarrow>
             if \<not> second_ok b c2 then replacement # utf8_decode_replace bs
             else
               (case r2 of
                  [] \<Rightarrow> [replacement]
                | c3 # r3 \<Rightarrow>
                    if is_continuation c3
                    then ((unat b - 0xE0) * 4096 + (unat c2 - 0x80) * 64 + (unat c3 - 0x80))
                           # utf8_decode_replace r3
                    else replacement # utf8_decode_replace r2))
      else if b < 0xF5 then
        (case bs of
           [] \<Rightarrow> [replacement]
         | c2 # r2 \<Rightarrow>
             if \<not> second_ok b c2 then replacement # utf8_decode_replace bs
             else
               (case r2 of
                  [] \<Rightarrow> [replacement]
                | c3 # r3 \<Rightarrow>
                    if \<not> is_continuation c3 then replacement # utf8_decode_replace r2
                    else
                      (case r3 of
                         [] \<Rightarrow> [replacement]
                       | c4 # r4 \<Rightarrow>
                           if is_continuation c4
                           then ((unat b - 0xF0) * 262144 + (unat c2 - 0x80) * 4096 +
                                 (unat c3 - 0x80) * 64 + (unat c4 - 0x80))
                                  # utf8_decode_replace r4
                           else replacement # utf8_decode_replace r3)))
      else replacement # utf8_decode_replace bs)"

subsection \<open>SerialManager\<close>

definition DEFAULT_BAUD :: nat where
  "DEFAULT_BAUD = 115200"

text \<open>The \<^verbatim>\<open>serial.Serial\<close> object: \<open>written\<close> collects the bytes handed to the link.\<close>

record serial_port =
  port :: str
  baudrate :: nat
  is_open :: bool
  written :: "byte list"

text \<open>The texts of the \<^verbatim>\<open>status_changed\<close> signal, by their parts.\<close>

datatype status_msg = Connected_msg str nat | Connection_failed string | DISCONNECTED

datatype signal = line_received str | status_changed bool status_msg | error_occurred string

record serial_manager =
  ser :: "serial_port option"
  baud :: nat
  buf :: "byte list"
  last_port :: "str option"
  poll_timer :: bool

text \<open>What the operating system answers: opening a port, writing to it, reading from it.
  An exception carries its text.\<close>

datatype open_result = OpenOk | OpenRaises string

datatype write_result = WriteOk | WriteRaises string | FlushRaises string

datatype read_result = ReadOk "byte list" | ReadRaises string

text \<open>\<^verbatim>\<open>SerialManager.__init__\<close>, lines 83 to 92.\<close>

definition SerialManager_init :: "nat \<Rightarrow> serial_manager" where
  "SerialManager_init b =
     \<lparr>ser = None, baud = b, buf = [], last_port = None, poll_timer = False\<rparr>"

text \<open>\<^verbatim>\<open>SerialManager.disconnect\<close>, lines 137 to 147. An exception of \<^verbatim>\<open>close()\<close> is
  logged and dropped, so the result does not depend on it.\<close>

definition disconnect :: "serial_manager \<Rightarrow> signal list \<times> serial_manager" where
  "disconnect sm =
     ([status_changed False DISCONNECTED], sm\<lparr>poll_timer := False, ser := None\<rparr>)"

text \<open>\<^verbatim>\<open>SerialManager.connect\<close>, lines 115 to 135: the boolean is the return value.\<close>

definition connect ::
  "str \<Rightarrow> open_result \<Rightarrow> serial_manager \<Rightarrow> (bool \<times> signal list) \<times> serial_manager" where
  "connect port_name res sm =
     (let (sigs, sm0) = disconnect sm
      in case res of
           OpenOk \<Rightarrow>
             ((True, sigs @ [status_changed True (Connected_msg port_name (baud sm0))]),
              sm0\<lparr>ser := Some \<lparr>port = port_name, baudrate = baud sm0, is_open = True,
                                 written = []\<rparr>,
                   last_port := Some port_name, poll_timer := True\<rparr>)
         | OpenRaises e \<Rightarrow>
             ((False, sigs @ [status_changed False (Connection_failed e)]),
              sm0\<lparr>ser := None\<rparr>))"

text \<open>\<^verbatim>\<open>SerialManager.is_connected\<close>, lines 149 to 151.\<close>

definition is_connected :: "serial_manager \<Rightarrow> bool" where
  "is_connected sm = (case ser sm of None \<Rightarrow> False | Some p \<Rightarrow> is_open p)"

text \<open>\<^verbatim>\<open>SerialManager.send_line\<close>, lines 153 to 167. Everything inside the \<^verbatim>\<open>try\<close>,
  the encoding included, ends in \<^verbatim>\<open>RuntimeError("Serial write failed: ...")\<close> when it
  raises; a failing \<^verbatim>\<open>flush\<close> comes after the bytes were handed over.\<close>

definition endswith_newline :: "str \<Rightarrow> bool" where
  "endswith_newline text \<longleftrightarrow> text \<noteq> [] \<and> last text = 0x0A"

definition port_write :: "byte list \<Rightarrow> serial_manager \<Rightarrow> serial_manager" where
  "port_write bs sm =
     sm\<lparr>ser := (case ser sm of None \<Rightarrow> None
                 | Some p \<Rightarrow> Some (p\<lparr>written := written p @ bs\<rparr>))\<rparr>"

definition send_line ::
  "write_result \<Rightarrow> str \<Rightarrow> serial_manager \<Rightarrow> (exn + unit) \<times> serial_manager" where
  "send_line io text sm =
     (if \<not> is_connected sm then (Inl (RuntimeError Serial_not_connected), sm)
      else
        let text1 = (if \<not> endswith_newline text then text @ [0x0A] else text)
        in case utf8_encode text1 of
             None \<Rightarrow> (Inl (RuntimeError (Serial_write_failed ''UnicodeEncodeError'')), sm)
           | Some bs \<Rightarrow>
               (case io of
                  WriteRaises e \<Rightarrow> (Inl (RuntimeError (Serial_write_failed e)), sm)
                | FlushRaises e \<Rightarrow>
                    (Inl (RuntimeError (Serial_write_failed e)), port_write bs sm)
                | WriteOk \<Rightarrow> (Inr (), port_write bs sm)))"

text \<open>The loop of \<^verbatim>\<open>_poll_serial\<close>, lines 181 to 190: while the buffer holds a newline,
  cut at the first one, decode and strip what is before it, and emit it when it is not
  empty. \<open>out\<close> collects the lines emitted so far.\<close>

definition newline :: byte where
  "newline = 0x0A"

function poll_loop :: "byte list \<Rightarrow> str list \<Rightarrow> str list \<times> byte list" where
  "poll_loop b out =
     (if newline \<in> set b then
        let line = takeWhile (\<lambda>x. x \<noteq> newline) b;
            rest = tl (dropWhile (\<lambda>x. x \<noteq> newline) b);
            decoded_line = strip (utf8_decode_replace line)
        in poll_loop rest (if decoded_line \<noteq> [] then out @ [decoded_line] else out)
      else (out, b))"
  by pat_completeness auto
termination
proof (relation "measure (\<lambda>(b, out). length b)")
  show "wf (measure (\<lambda>(b, out). length b))" by simp
next
  fix b :: "byte list" and out :: "str list" and x xa xb
  assume "newline \<in> set b" and "xa = tl (dropWhile (\<lambda>x. x \<noteq> newline) b)"
  then have "length xa < length b"
    by (induction b) (auto split: if_splits)
  then show "((xa, if xb \<noteq> [] then out @ [xb] else out), b, out)
             \<in> measure (\<lambda>(b, out). length b)"
    by simp
qed

declare poll_loop.simps [simp del]

text \<open>The framing part of \<^verbatim>\<open>_poll_serial\<close>, lines 176 to 190, on the bytes one read
  returned: no bytes, nothing happens.\<close>

definition feed :: "byte list \<Rightarrow> byte list \<Rightarrow> str list \<times> byte list" where
  "feed data b = (if data = [] then ([], b) else poll_loop (b @ data) [])"

text \<open>\<^verbatim>\<open>SerialManager._poll_serial\<close>, lines 169 to 195.\<close>

definition poll_serial :: "read_result \<Rightarrow> serial_manager \<Rightarrow> signal list \<times> serial_manager" where
  "poll_serial rr sm =
     (if \<not> is_connected sm then ([], sm)
      else case rr of
             ReadRaises e \<Rightarrow>
               (let (sigs, sm1) = disconnect sm in (error_occurred e # sigs, sm1))
           | ReadOk data \<Rightarrow>
               (let (lines, rest) = feed data (buf sm)
                in (map line_received lines, sm\<lparr>buf := rest\<rparr>)))"

text \<open>Feeding the reads of several polls, one after the other.\<close>

fun feed_all :: "byte list list \<Rightarrow> byte list \<Rightarrow> str list \<times> byte list" where
  "feed_all [] b = ([], b)"
| "feed_all (chunk # chunks) b =
     (let (lines1, b1) = feed chunk b;
          (lines2, b2) = feed_all chunks b1
      in (lines1 @ lines2, b2))"

subsection \<open>collections.deque with a maxlen\<close>

record 'a deque =
  items :: "'a list"
  maxlen :: nat

definition new_deque :: "nat \<Rightarrow> 'a deque" where
  "new_deque n = \<lparr>items = [], maxlen = n\<rparr>"

text \<open>\<^verbatim>\<open>deque.append\<close>: the item goes to the right end; a deque that is then longer than
  its maxlen drops one item from the left.\<close>

definition deque_append :: "'a deque \<Rightarrow> 'a \<Rightarrow> 'a deque" where
  "deque_append d x =
     (let ys = items d @ [x]
      in d\<lparr>items := (if length ys > maxlen d then tl ys else ys)\<rparr>)"

definition deque_clear :: "'a deque \<Rightarrow> 'a deque" where
  "deque_clear d = d\<lparr>items := []\<rparr>"

subsection \<open>MainWindow\<close>

text \<open>The attributes of \<^verbatim>\<open>MainWindow\<close> that are not widgets: the serial manager, the plot
  data, and the texts appended to the log view.\<close>

record main_window =
  serial :: serial_manager
  seconds_window :: real
  x_times :: "real deque"
  y_vals :: "pyfloat deque"
  t0 :: real
  log_text :: "str list"

text \<open>\<^verbatim>\<open>MainWindow.__init__\<close>, lines 301 to 311; \<open>clock\<close> is the reading of
  \<^verbatim>\<open>time.monotonic()\<close>.\<close>

definition MainWindow_init :: "real \<Rightarrow> main_window" where
  "MainWindow_init clock =
     \<lparr>serial = SerialManager_init DEFAULT_BAUD, seconds_window = 30.0, x_times = new_deque 1000, y_vals = new_deque 1000,
      t0 = clock, log_text = []\<rparr>"

text \<open>The trimming loop of \<^verbatim>\<open>append_data_point\<close>, lines 467 to 469:
  \<^verbatim>\<open>while self.x_times and self.x_times[0] < cutoff_time:\<close> pop the left end of both deques.
  \<^verbatim>\<open>popleft\<close> on an empty deque raises IndexError; the state returned with the error is
  the one the exception leaves behind.\<close>

function trim_old :: "real \<Rightarrow> main_window \<Rightarrow> (exn + unit) \<times> main_window" where
  "trim_old cutoff_time w =
     (case items (x_times w) of
        [] \<Rightarrow> (Inr (), w)
      | t # ts \<Rightarrow>
          if t < cutoff_time then
            (case items (y_vals w) of
               [] \<Rightarrow> (Inl IndexError, w\<lparr>x_times := (x_times w)\<lparr>items := ts\<rparr>\<rparr>)
             | v # vs \<Rightarrow>
                 trim_old cutoff_time
                   (w\<lparr>x_times := (x_times w)\<lparr>items := ts\<rparr>,
                      y_vals := (y_vals w)\<lparr>items := vs\<rparr>\<rparr>))
          else (Inr (), w))"
  by pat_completeness auto
termination
  by (relation "measure (\<lambda>(c, w). length (items (x_times w)))") auto

declare trim_old.simps [simp del]

text \<open>The eviction step of \<^verbatim>\<open>append_data_point\<close>, lines 465 to 469: the cutoff is the
  current time less the retention \<^verbatim>\<open>self.seconds_window\<close>, then the loop runs.\<close>

definition evict :: "real \<Rightarrow> main_window \<Rightarrow> (exn + unit) \<times> main_window" where
  "evict current_time w =
     (let cutoff_time = current_time - seconds_window w
      in trim_old cutoff_time w)"

text \<open>\<^verbatim>\<open>MainWindow.append_data_point\<close>, lines 459 to 469.\<close>

definition append_data_point :: "real \<Rightarrow> pyfloat \<Rightarrow> main_window \<Rightarrow> (exn + unit) \<times> main_window" where
  "append_data_point clock val w =
     (let current_time = clock - t0 w;
          w1 = w\<lparr>x_times := deque_append (x_times w) current_time\<rparr>;
          w2 = w1\<lparr>y_vals := deque_append (y_vals w1) val\<rparr>
      in evict current_time w2)"

text \<open>\<^verbatim>\<open>MainWindow.set_window_seconds\<close>, lines 495 and 496.\<close>

definition set_window_seconds :: "real \<Rightarrow> main_window \<Rightarrow> main_window" where
  "set_window_seconds seconds w = w\<lparr>seconds_window := seconds\<rparr>"


subsection \<open>Reading a line: the regular expression and float()\<close>

definition is_digit :: "nat \<Rightarrow> bool" where
  "is_digit c \<longleftrightarrow> 0x30 \<le> c \<and> c \<le> 0x39"

definition ascii_lower :: "nat \<Rightarrow> nat" where
  "ascii_lower c = (if 0x41 \<le> c \<and> c \<le> 0x5A then c + 32 else c)"

text \<open>A literal (given in lower case) matched at the start of a text without regard to
  case; the result is what follows the match. No character outside ASCII has one of the
  letters used here as its lower case.\<close>

fun match_ignorecase :: "str \<Rightarrow> str \<Rightarrow> str option" where
  "match_ignorecase [] s = Some s"
| "match_ignorecase (p # ps) [] = None"
| "match_ignorecase (p # ps) (c # cs) =
     (if ascii_lower c = p then match_ignorecase ps cs else None)"

text \<open>\<^verbatim>\<open>re.match(r"^Total\s*:\s*([0-9]+(?:\.[0-9]+)?)", line, re.IGNORECASE)\<close>, line 439:
  the result is group 1 of the match. Every repetition is greedy and no two neighbours of
  the pattern can match the same character, so the match takes all the whitespace, all
  the digits, and the fraction whenever a point and a digit follow. \<open>match_number\<close> is
  the group \<^verbatim>\<open>([0-9]+(?:\.[0-9]+)?)\<close>.\<close>

definition match_number :: "str \<Rightarrow> str option" where
  "match_number r =
     (let int_part = takeWhile is_digit r;
          r1 = dropWhile is_digit r
      in if int_part = [] then None
         else
           (case r1 of
              [] \<Rightarrow> Some int_part
            | d # r2 \<Rightarrow>
                if d = 0x2E \<and> takeWhile is_digit r2 \<noteq> []
                then Some (int_part @ [0x2E] @ takeWhile is_digit r2)
                else Some int_part))"

definition total_match :: "str \<Rightarrow> str option" where
  "total_match line =
     (case match_ignorecase (ustr ''total'') line of
        None \<Rightarrow> None
      | Some r0 \<Rightarrow>
          (case dropWhile is_space r0 of
             [] \<Rightarrow> None
           | c # r1 \<Rightarrow>
               if c \<noteq> 0x3A then None else match_number (dropWhile is_space r1)))"

text \<open>\<^verbatim>\<open>float(s)\<close> on a \<^verbatim>\<open>str\<close>, as CPython does it. The table of the Unicode decimal
  digits (general category Nd, with the digit each stands for, 0 to 9) is not part of the
  program and is a parameter; it is looked up for characters from 127 on only.

  First, a text that is not pure ASCII has its whitespace turned into blanks and its
  decimal digits into ASCII digits; at any other character beyond ASCII the text is cut
  and ends in a question mark.\<close>

type_synonym digit_table = "nat \<Rightarrow> nat option"

fun transform_decimal_and_space :: "digit_table \<Rightarrow> str \<Rightarrow> str" where
  "transform_decimal_and_space nd [] = []"
| "transform_decimal_and_space nd (ch # cs) =
     (if ch < 127 then ch # transform_decimal_and_space nd cs
      else if is_space ch then 0x20 # transform_decimal_and_space nd cs
      else (case nd ch of
              None \<Rightarrow> [0x3F]
            | Some decimal \<Rightarrow> (0x30 + decimal) # transform_decimal_and_space nd cs))"

definition to_ascii :: "digit_table \<Rightarrow> str \<Rightarrow> str" where
  "to_ascii nd s = (if list_all (\<lambda>c. c < 128) s then s else transform_decimal_and_space nd s)"

text \<open>Second, underscores: a text with an underscore is copied without them, and refused
  when an underscore does not stand between two digits (or at a NUL character).\<close>

fun underscore_loop :: "nat \<Rightarrow> str \<Rightarrow> str option" where
  "underscore_loop prev [] = (if prev = 0x5F then None else Some [])"
| "underscore_loop prev (p # ps) =
     (if p = 0 then None
      else if p = 0x5F then (if is_digit prev then underscore_loop p ps else None)
      else if prev = 0x5F \<and> \<not> is_digit p then None
      else (case underscore_loop p ps of None \<Rightarrow> None | Some r \<Rightarrow> Some (p # r)))"

definition number_with_underscores :: "str \<Rightarrow> str option" where
  "number_with_underscores s = (if 0x5F \<notin> set s then Some s else underscore_loop 0 s)"

text \<open>Third, ASCII whitespace is removed at both ends and the rest has to be, to its last
  character, a number: a sign, digits with at most one point and at least one digit, and
  an exponent when \<^verbatim>\<open>e\<close> or \<^verbatim>\<open>E\<close> is followed by digits (with a sign before them or
  not); or else a sign and one of \<^verbatim>\<open>inf\<close>, \<^verbatim>\<open>infinity\<close>, \<^verbatim>\<open>nan\<close> in any case.
  The value of a number is the real number its digits denote, rounded to binary64.\<close>

definition ascii_space :: "nat \<Rightarrow> bool" where
  "ascii_space c \<longleftrightarrow> c = 0x20 \<or> (0x09 \<le> c \<and> c \<le> 0x0D)"

definition ascii_strip :: "str \<Rightarrow> str" where
  "ascii_strip s = rev (dropWhile ascii_space (rev (dropWhile ascii_space s)))"

definition digits_value :: "str \<Rightarrow> nat" where
  "digits_value ds = foldl (\<lambda>a c. 10 * a + (c - 0x30)) 0 ds"

definition parse_sign :: "str \<Rightarrow> bool \<times> str" where
  "parse_sign s =
     (case s of
        [] \<Rightarrow> (False, s)
      | c # r \<Rightarrow> if c = 0x2D then (True, r) else if c = 0x2B then (False, r) else (False, s))"

definition parse_exponent :: "str \<Rightarrow> int \<times> str" where
  "parse_exponent s =
     (case s of
        [] \<Rightarrow> (0, s)
      | c # r \<Rightarrow>
          if c = 0x65 \<or> c = 0x45 then
            (let (esign, r1) = parse_sign r;
                 ds = takeWhile is_digit r1
             in if ds = [] then (0, s)
                else ((if esign then - int (digits_value ds) else int (digits_value ds)),
                      dropWhile is_digit r1))
          else (0, s))"

definition scale10 :: "real \<Rightarrow> int \<Rightarrow> real" where
  "scale10 x e = (if 0 \<le> e then x * 10 ^ nat e else x / 10 ^ nat (- e))"

text \<open>The value of a numeral is rounded to binary64 as IEEE 754 has it: to the nearest
  number of the format, a tie to the one with the even significand, and to infinity from
  \<open>2 ^ 1024 - 2 ^ 970\<close> on. \<open>binade\<close> is the exponent of the power of two at or below
  \<open>x\<close>, not below \<open>- 1022\<close> (where the subnormal numbers begin) and not above 1023.\<close>

definition round_half_even :: "real \<Rightarrow> int" where
  "round_half_even r =
     (let f = \<lfloor>r\<rfloor>; d = r - of_int f
      in if d < 1 / 2 then f else if 1 / 2 < d then f + 1 else if even f then f else f + 1)"

fun binade_from :: "nat \<Rightarrow> real \<Rightarrow> int" where
  "binade_from 0 x = - 1022"
| "binade_from (Suc k) x =
     (if 2 powi (int (Suc k) - 1022) \<le> x then int (Suc k) - 1022 else binade_from k x)"

definition binade :: "real \<Rightarrow> int" where
  "binade x = binade_from 2045 x"

definition binary64_pos :: "real \<Rightarrow> pyfloat" where
  "binary64_pos x =
     (let q = 2 powi (binade x - 52);
          y = of_int (round_half_even (x / q)) * q
      in if 2 ^ 1024 \<le> y then PosInf else Finite y)"

definition negate :: "pyfloat \<Rightarrow> pyfloat" where
  "negate v = (case v of Finite y \<Rightarrow> Finite (- y) | PosInf \<Rightarrow> NegInf | NegInf \<Rightarrow> PosInf | NaN \<Rightarrow> NaN)"

definition binary64 :: "real \<Rightarrow> pyfloat" where
  "binary64 x =
     (if x = 0 then Finite 0
      else if 0 < x then binary64_pos x
      else negate (binary64_pos (- x)))"

text \<open>The conversion refuses a numeral of more than \<open>MAX_DIGITS\<close> digits, the leading
  zeros not counted, or of more than that many digits after the point.\<close>

definition MAX_DIGITS :: nat where
  "MAX_DIGITS = 1000000000"

definition strtod :: "str \<Rightarrow> (pyfloat \<times> str) option" where
  "strtod s =
     (let (negative, s1) = parse_sign s;
          int_part = takeWhile is_digit s1;
          s2 = dropWhile is_digit s1;
          (frac_part, s3) =
            (case s2 of
               [] \<Rightarrow> ([], s2)
             | c # r \<Rightarrow>
                 if c = 0x2E then (takeWhile is_digit r, dropWhile is_digit r) else ([], s2))
      in if int_part = [] \<and> frac_part = [] then None
         else if MAX_DIGITS < length (dropWhile (\<lambda>c. c = 0x30) (int_part @ frac_part)) \<or>
                 MAX_DIGITS < length frac_part
         then None
         else
           (let (e, s4) = parse_exponent s3;
                m = real (digits_value (int_part @ frac_part));
                x = scale10 m (e - int (length frac_part))
            in Some (binary64 (if negative then - x else x), s4)))"

definition parse_inf_or_nan :: "str \<Rightarrow> (pyfloat \<times> str) option" where
  "parse_inf_or_nan s =
     (let (negative, s1) = parse_sign s
      in case match_ignorecase (ustr ''inf'') s1 of
           Some r \<Rightarrow>
             (case match_ignorecase (ustr ''inity'') r of
                Some r1 \<Rightarrow> Some (if negative then NegInf else PosInf, r1)
              | None \<Rightarrow> Some (if negative then NegInf else PosInf, r))
         | None \<Rightarrow>
             (case match_ignorecase (ustr ''nan'') s1 of
                Some r \<Rightarrow> Some (NaN, r)
              | None \<Rightarrow> None))"

text \<open>\<open>None\<close> stands for ValueError.\<close>

definition py_float :: "digit_table \<Rightarrow> str \<Rightarrow> pyfloat option" where
  "py_float nd s =
     (case number_with_underscores (to_ascii nd s) of
        None \<Rightarrow> None
      | Some t \<Rightarrow>
          (let u = ascii_strip t
           in if u = [] then None
              else
                (case strtod u of
                   Some (x, rest) \<Rightarrow> if rest = [] then Some x else None
                 | None \<Rightarrow>
                     (case parse_inf_or_nan u of
                        Some (v, rest) \<Rightarrow> if rest = [] then Some v else None
                      | None \<Rightarrow> None))))"

text \<open>\<^verbatim>\<open>MainWindow.on_serial_line\<close>, lines 436 to 457. \<open>plain_number\<close> is the part from
  line 448 on, reached when the pattern does not match and (through \<^verbatim>\<open>pass\<close>) when the
  float of group 1 raises.\<close>

definition plain_number ::
  "digit_table \<Rightarrow> real \<Rightarrow> str \<Rightarrow> main_window \<Rightarrow> (exn + unit) \<times> main_window" where
  "plain_number nd clock line w =
     (case py_float nd (strip line) of
        Some val \<Rightarrow> append_data_point clock val w
      | None \<Rightarrow> (Inr (), w\<lparr>log_text := log_text w @ [line]\<rparr>))"

definition on_serial_line ::
  "digit_table \<Rightarrow> real \<Rightarrow> str \<Rightarrow> main_window \<Rightarrow> (exn + unit) \<times> main_window" where
  "on_serial_line nd clock line w =
     (case total_match line of
        None \<Rightarrow> plain_number nd clock line w
      | Some g \<Rightarrow>
          (case py_float nd g of
             Some val \<Rightarrow> append_data_point clock val w
           | None \<Rightarrow> plain_number nd clock line w))"

text \<open>\<^verbatim>\<open>MainWindow.toggle_connect\<close>, lines 510 to 528. \<open>port_text\<close> is the text of the
  port box, \<open>clock\<close> the reading of \<^verbatim>\<open>time.monotonic()\<close>; the signals of the serial
  manager only set labels here, and the message box of line 516 is not modelled. An
  exception of the greeting \<^verbatim>\<open>HELP\<close> is dropped.\<close>

definition toggle_connect ::
  "str \<Rightarrow> open_result \<Rightarrow> write_result \<Rightarrow> real \<Rightarrow> main_window \<Rightarrow> main_window" where
  "toggle_connect port_text res io clock w =
     (if is_connected (serial w) then w\<lparr>serial := snd (disconnect (serial w))\<rparr>
      else
        let port = strip port_text
        in if port = [] \<or> port = ustr ''(no ports found)'' then w
           else
             (case connect port res (serial w) of
                ((True, sigs), sm) \<Rightarrow>
                  let w1 = w\<lparr>serial := sm, t0 := clock,
                             x_times := deque_clear (x_times w),
                             y_vals := deque_clear (y_vals w),
                             log_text := []\<rparr>
                  in w1\<lparr>serial := snd (send_line io (ustr ''HELP'') (serial w1))\<rparr>
              | ((False, sigs), sm) \<Rightarrow> w\<lparr>serial := sm\<rparr>))"

text \<open>\<^verbatim>\<open>MainWindow._send_command\<close>, lines 605 to 619, with \<^verbatim>\<open>_check_connection\<close>: the
  result tells whether the command went out, was refused for want of a connection
  (\<open>None\<close>), or raised.\<close>

definition send_command ::
  "write_result \<Rightarrow> str \<Rightarrow> main_window \<Rightarrow> (exn + unit) option \<times> main_window" where
  "send_command io command w =
     (if \<not> is_connected (serial w) then (None, w)
      else
        let (r, sm) = send_line io command (serial w)
        in (Some r, w\<lparr>serial := sm\<rparr>))"

text \<open>What happens to a window, one event after the other: a line arrives, the retention
  is set, the connect button is pressed, a command button is pressed. An exception ends
  the handling of its event only.\<close>

datatype event =
    Line real str
  | Window real
  | Toggle str open_result write_result real
  | Command write_result str

fun handle :: "digit_table \<Rightarrow> event \<Rightarrow> main_window \<Rightarrow> (exn + unit) \<times> main_window" where
  "handle nd (Line clock line) w = on_serial_line nd clock line w"
| "handle nd (Window seconds) w = (Inr (), set_window_seconds seconds w)"
| "handle nd (Toggle port_text res io clock) w = (Inr (), toggle_connect port_text res io clock w)"
| "handle nd (Command io command) w = (Inr (), snd (send_command io command w))"

fun run :: "digit_table \<Rightarrow> event list \<Rightarrow> main_window \<Rightarrow> main_window" where
  "run nd [] w = w"
| "run nd (e # es) w = run nd es (snd (handle nd e w))"

subsection \<open>Two states of the serial manager\<close>

text \<open>A manager freshly connected to a port, and one that was connected, read the two
  bytes \<^verbatim>\<open>12\<close> with no newline after them, and was disconnected again.\<close>

definition connected_manager :: serial_manager where
  "connected_manager = snd (connect (ustr ''COM3'') OpenOk (SerialManager_init DEFAULT_BAUD))"

definition after_partial_line :: serial_manager where
  "after_partial_line =
     snd (disconnect (snd (poll_serial (ReadOk [0x31, 0x32]) connected_manager)))"

subsection \<open>What the framer is to produce\<close>

text \<open>Said without the loop: the byte runs that a newline ends, in order, found by one
  pass over the bytes; each decoded and stripped, the empty ones left out; and the bytes
  after the last newline. \<open>bytes_of\<close> writes ASCII text as bytes.\<close>

fun segments_from :: "byte list \<Rightarrow> byte list \<Rightarrow> byte list list" where
  "segments_from cur [] = []"
| "segments_from cur (x # xs) =
     (if x = newline then rev cur # segments_from [] xs else segments_from (x # cur) xs)"

definition terminated_segments :: "byte list \<Rightarrow> byte list list" where
  "terminated_segments bs = segments_from [] bs"

definition decoded_lines :: "byte list \<Rightarrow> str list" where
  "decoded_lines bs =
     filter (\<lambda>l. l \<noteq> []) (map (\<lambda>seg. strip (utf8_decode_replace seg)) (terminated_segments bs))"

definition bytes_of :: "string \<Rightarrow> byte list" where
  "bytes_of s = map of_char s"

definition after_last_newline :: "byte list \<Rightarrow> byte list" where
  "after_last_newline bs = rev (takeWhile (\<lambda>x. x \<noteq> newline) (rev bs))"

subsection \<open>Well-formed windows\<close>

text \<open>The two deques of a window are in step when they hold equally many items, have the
  same maxlen, and hold no more than it. \<open>full_window\<close> is a window at its cap of 1000
  samples, all of them taken at time 0.\<close>

definition lockstep :: "main_window \<Rightarrow> bool" where
  "lockstep w \<longleftrightarrow>
     length (items (x_times w)) = length (items (y_vals w)) \<and>
     maxlen (x_times w) = maxlen (y_vals w) \<and>
     length (items (x_times w)) \<le> maxlen (x_times w)"

definition full_window :: main_window where
  "full_window =
     \<lparr>serial = connected_manager, seconds_window = 30,
      x_times = \<lparr>items = replicate 1000 0, maxlen = 1000\<rparr>,
      y_vals = \<lparr>items = replicate 1000 (Finite 1), maxlen = 1000\<rparr>,
      t0 = 0, log_text = []\<rparr>"

subsection \<open>The accepted forms of a line, said without the matcher\<close>






subsection \<open>A digit table for ASCII text\<close>


section \<open>Rounding to binary64\<close>

lemma round_half_even_int [simp]: "round_half_even (of_int m) = m"
  by (simp add: round_half_even_def)


lemma binade_from_eq:
  assumes "- 1022 \<le> b" and "b \<le> int k - 1022"
    and "2 powi b \<le> x" and "x < 2 powi (b + 1)"
  shows "binade_from k x = b"
  using assms(2)
proof (induction k)
  case 0
  with assms(1) show ?case by simp
next
  case (Suc k)
  show ?case
  proof (cases "2 powi (int (Suc k) - 1022) \<le> x")
    case True
    with assms(4) have "(2::real) powi (int (Suc k) - 1022) < 2 powi (b + 1)"
      by simp
    have "\<not> b + 1 \<le> int (Suc k) - 1022"
    proof
      assume "b + 1 \<le> int (Suc k) - 1022"
      then have "(2::real) powi (b + 1) \<le> 2 powi (int (Suc k) - 1022)"
        by (intro power_int_increasing) simp_all
      with \<open>(2::real) powi (int (Suc k) - 1022) < 2 powi (b + 1)\<close> show False by simp
    qed
    with Suc.prems True show ?thesis by simp
  next
    case False
    with assms(3) have "(2::real) powi b < 2 powi (int (Suc k) - 1022)"
      by simp
    have "\<not> int (Suc k) - 1022 \<le> b"
    proof
      assume "int (Suc k) - 1022 \<le> b"
      then have "(2::real) powi (int (Suc k) - 1022) \<le> 2 powi b"
        by (intro power_int_increasing) simp_all
      with \<open>(2::real) powi b < 2 powi (int (Suc k) - 1022)\<close> show False by simp
    qed
    then have "b \<le> int k - 1022" by simp
    with Suc.IH False show ?thesis by simp
  qed
qed

lemma binade_eq:
  assumes "- 1022 \<le> b" and "b \<le> 1023" and "2 powi b \<le> x" and "x < 2 powi (b + 1)"
  shows "binade x = b"
  unfolding binade_def using assms by (intro binade_from_eq) simp_all

lemma binary64_pos_exact:
  assumes "x = of_int m * 2 powi e" and "2 ^ 52 \<le> m" and "m < 2 ^ 53"
    and "- 1074 \<le> e" and "e \<le> 971"
  shows "binary64_pos x = Finite x"
proof -
  have p: "(2::real) powi (e + 52) = 2 powi e * 2 ^ 52"
    by (simp add: power_int_add)
  have p1: "(2::real) powi (e + 52 + 1) = 2 powi e * 2 ^ 53"
    by (simp add: power_int_add)
  have pos: "(0::real) < 2 powi e" by simp
  have lo: "2 powi (e + 52) \<le> x"
    unfolding p assms(1) using assms(2) pos
    by (simp add: mult.commute [of "2 powi e"] flip: of_int_le_iff)
  have "real_of_int m < 2 ^ 53"
    using assms(3) by (simp flip: of_int_less_iff)
  then have hi: "x < 2 powi (e + 52 + 1)"
    unfolding p1 assms(1) using pos by (simp add: mult.commute [of "2 powi e"])
  have b: "binade x = e + 52"
    using assms(4,5) lo hi by (intro binade_eq) simp_all
  have q: "x / 2 powi e = of_int m"
    unfolding assms(1) by simp
  have "x < 2 powi (e + 52 + 1)" by (rule hi)
  also have "\<dots> \<le> 2 powi 1024"
    using assms(5) by (intro power_int_increasing) simp_all
  finally have "x < 2 ^ 1024" by simp
  then show ?thesis
    by (simp add: binary64_pos_def b q) (simp add: assms(1))
qed


lemma binary64_exact:
  assumes "x = of_int m * 2 powi e" and "2 ^ 52 \<le> \<bar>m\<bar>" and "\<bar>m\<bar> < 2 ^ 53"
    and "- 1074 \<le> e" and "e \<le> 971"
  shows "binary64 x = Finite x"
proof (cases "0 < m")
  case True
  then have "0 < x"
    unfolding assms(1) by simp
  moreover have "binary64_pos x = Finite x"
    using assms True by (intro binary64_pos_exact [of x m e]) simp_all
  ultimately show ?thesis by (simp add: binary64_def)
next
  case False
  with assms(2) have neg: "m < 0" by auto
  then have "x < 0"
    unfolding assms(1) by (simp add: mult_neg_pos)
  moreover have "binary64_pos (- x) = Finite (- x)"
    using assms neg by (intro binary64_pos_exact [of "- x" "- m" e]) simp_all
  ultimately show ?thesis by (simp add: binary64_def negate_def)
qed


text \<open>Some numbers that binary64 holds exactly.\<close>

lemma binary64_values:
  "binary64 5 = Finite 5"
  "binary64 (15 / 2) = Finite (15 / 2)"
  "binary64 (3 / 2) = Finite (3 / 2)"
  "binary64 (361 / 2) = Finite (361 / 2)"
  "binary64 (- (25 / 2)) = Finite (- (25 / 2))"
  "binary64 100000 = Finite 100000"
proof -
  show "binary64 5 = Finite 5"
    by (rule binary64_exact [of _ "5 * 2 ^ 50" "- 50"]) (simp_all add: power_int_minus)
  show "binary64 (15 / 2) = Finite (15 / 2)"
    by (rule binary64_exact [of _ "15 * 2 ^ 49" "- 50"]) (simp_all add: power_int_minus)
  show "binary64 (3 / 2) = Finite (3 / 2)"
    by (rule binary64_exact [of _ "3 * 2 ^ 51" "- 52"]) (simp_all add: power_int_minus)
  show "binary64 (361 / 2) = Finite (361 / 2)"
    by (rule binary64_exact [of _ "361 * 2 ^ 44" "- 45"]) (simp_all add: power_int_minus)
  show "binary64 (- (25 / 2)) = Finite (- (25 / 2))"
    by (rule binary64_exact [of _ "- (25 * 2 ^ 48)" "- 49"]) (simp_all add: power_int_minus)
  show "binary64 100000 = Finite 100000"
    by (rule binary64_exact [of _ "100000 * 2 ^ 36" "- 36"]) (simp_all add: power_int_minus)
qed

section \<open>The plot buffer: eviction\<close>

lemma trim_old_paired:
  "length (items (x_times w)) = length (items (y_vals w)) \<Longrightarrow>
   trim_old c w =
     (Inr (), w\<lparr>x_times := (x_times w)\<lparr>items := dropWhile (\<lambda>t. t < c) (items (x_times w))\<rparr>,
               y_vals := (y_vals w)\<lparr>items :=
                 drop (length (takeWhile (\<lambda>t. t < c) (items (x_times w)))) (items (y_vals w))\<rparr>\<rparr>)"
proof (induction c w rule: trim_old.induct)
  case (1 c w)
  show ?case
  proof (cases "items (x_times w)")
    case Nil
    with "1.prems" show ?thesis
      by (subst trim_old.simps) simp
  next
    case (Cons t ts)
    then obtain v vs where vs: "items (y_vals w) = v # vs"
      using "1.prems" by (cases "items (y_vals w)") auto
    show ?thesis
    proof (cases "t < c")
      case True
      have len: "length ts = length vs"
        using "1.prems" Cons vs by simp
      show ?thesis
        using "1.IH" [OF Cons True vs] len Cons vs True
        by (subst trim_old.simps) simp
    next
      case False
      with Cons show ?thesis
        by (subst trim_old.simps) simp
    qed
  qed
qed

lemma takeWhile_dropWhile_same [simp]: "takeWhile P (dropWhile P xs) = []"
  by (induction xs) auto




text \<open>
  Claim C5. Evicting twice with the same retention (at the same latest timestamp) gives the
  window that evicting once gives: the second run finds nothing to remove.
\<close>

theorem evict_idempotent:
  assumes "length (items (x_times w)) = length (items (y_vals w))"
  shows "\<exists>w'. evict latest w = (Inr (), w') \<and> evict latest w' = (Inr (), w')"
proof -
  let ?c = "latest - seconds_window w"
  let ?w' = "w\<lparr>x_times := (x_times w)\<lparr>items := dropWhile (\<lambda>t. t < ?c) (items (x_times w))\<rparr>,
               y_vals := (y_vals w)\<lparr>items :=
                 drop (length (takeWhile (\<lambda>t. t < ?c) (items (x_times w)))) (items (y_vals w))\<rparr>\<rparr>"
  have 1: "evict latest w = (Inr (), ?w')"
    using assms by (simp add: evict_def Let_def trim_old_paired)
  have len: "length (items (x_times ?w')) = length (items (y_vals ?w'))"
    using assms by (simp add: dropWhile_eq_drop)
  have 2: "evict latest ?w' = (Inr (), ?w')"
    by (simp add: evict_def Let_def trim_old_paired [OF len])
  from 1 2 show ?thesis by blast
qed

theorem evict_idempotent_witness:
  "\<exists>w'. evict 3 \<lparr>serial = SerialManager_init 115200, seconds_window = 2, x_times = \<lparr>items = [0, 1, 2.5, 3], maxlen = 1000\<rparr>,
              y_vals = \<lparr>items = [Finite 10, Finite 20, Finite 30, Finite 40], maxlen = 1000\<rparr>,
              t0 = 0, log_text = []\<rparr> = (Inr (), w') \<and> evict 3 w' = (Inr (), w') \<and>
        items (x_times w') = [1, 2.5, 3]"
proof -
  let ?w = "\<lparr>serial = SerialManager_init 115200, seconds_window = 2, x_times = \<lparr>items = [0, 1, 2.5, 3], maxlen = 1000\<rparr>,
              y_vals = \<lparr>items = [Finite 10, Finite 20, Finite 30, Finite 40], maxlen = 1000\<rparr>,
              t0 = 0, log_text = []\<rparr>"
  have l: "length (items (x_times ?w)) = length (items (y_vals ?w))" by simp
  from evict_idempotent [OF l, of 3]
  obtain w' where a: "evict 3 ?w = (Inr (), w')" and b: "evict 3 w' = (Inr (), w')"
    by blast
  have "evict 3 ?w = (Inr (), \<lparr>serial = SerialManager_init 115200, seconds_window = 2, x_times = \<lparr>items = [1, 2.5, 3], maxlen = 1000\<rparr>,
              y_vals = \<lparr>items = [Finite 20, Finite 30, Finite 40], maxlen = 1000\<rparr>,
              t0 = 0, log_text = []\<rparr>)"
    by (simp add: evict_def Let_def trim_old_paired)
  with a have "items (x_times w') = [1, 2.5, 3]" by simp
  with a b show ?thesis by blast
qed

section \<open>The serial manager: sending and connecting\<close>

text \<open>
  Claim C6. While the manager is not connected, \<^verbatim>\<open>send_line\<close> raises
  \<^verbatim>\<open>RuntimeError("Serial not connected")\<close> for every text and every behaviour of the
  link, and leaves the manager as it was: the connection, the bytes written so far and the
  receive buffer. The command buttons do not even call it then, and leave the whole
  window, samples included, as it was.
\<close>

theorem send_while_disconnected:
  assumes "\<not> is_connected (serial w)"
  shows "send_line io text (serial w) = (Inl (RuntimeError Serial_not_connected), serial w) \<and>
         send_command io text w = (None, w)"
  using assms by (simp add: send_line_def send_command_def)

theorem send_while_disconnected_witness:
  "\<not> is_connected (serial (MainWindow_init 0)) \<and>
   send_line WriteOk (ustr ''SAVE'') (serial (MainWindow_init 0)) =
     (Inl (RuntimeError Serial_not_connected), serial (MainWindow_init 0)) \<and>
   send_command WriteOk (ustr ''SAVE'') (MainWindow_init 0) = (None, MainWindow_init 0)"
proof -
  have h: "\<not> is_connected (serial (MainWindow_init 0))"
    by (simp add: MainWindow_init_def SerialManager_init_def is_connected_def)
  from h send_while_disconnected [OF h, of WriteOk "ustr ''SAVE''"] show ?thesis by simp
qed

lemma is_connected_port_write [simp]: "is_connected (port_write bs sm) = is_connected sm"
  by (simp add: is_connected_def port_write_def split: option.splits)

lemma port_write_fields [simp]:
  "buf (port_write bs sm) = buf sm" "poll_timer (port_write bs sm) = poll_timer sm"
  "baud (port_write bs sm) = baud sm" "last_port (port_write bs sm) = last_port sm"
  by (simp_all add: port_write_def)

text \<open>
  Claim C7, as the code has it. While connected, a send whose write or flush raises ends
  in \<^verbatim>\<open>RuntimeError("Serial write failed: ...")\<close>, and the manager stays connected: the
  port stays open, the poll timer keeps running, the receive buffer is untouched; when
  the write itself raised, nothing of the manager changes. No disconnect happens.
\<close>

theorem write_failure_keeps_connection:
  assumes "is_connected sm" and "io = WriteRaises e \<or> io = FlushRaises e"
  shows "\<exists>msg sm'. send_line io text sm = (Inl (RuntimeError (Serial_write_failed msg)), sm') \<and>
           is_connected sm' \<and> poll_timer sm' = poll_timer sm \<and> buf sm' = buf sm \<and>
           (io = WriteRaises e \<longrightarrow> sm' = sm)"
  using assms by (auto simp: send_line_def Let_def split: option.splits)

lemma connected_manager_eq:
  "connected_manager =
     \<lparr>ser = Some \<lparr>port = ustr ''COM3'', baudrate = 115200, is_open = True, written = []\<rparr>,
      baud = 115200, buf = [], last_port = Some (ustr ''COM3''), poll_timer = True\<rparr>"
  by (simp add: connected_manager_def connect_def disconnect_def SerialManager_init_def
      DEFAULT_BAUD_def)

lemma poll_loop_no_newline: "newline \<notin> set b \<Longrightarrow> poll_loop b out = (out, b)"
  by (subst poll_loop.simps) simp

lemma after_partial_line_eq:
  "after_partial_line =
     \<lparr>ser = None, baud = 115200, buf = [0x31, 0x32], last_port = Some (ustr ''COM3''),
      poll_timer = False\<rparr>"
  by (simp add: after_partial_line_def connected_manager_eq poll_serial_def is_connected_def
      feed_def poll_loop_no_newline newline_def disconnect_def)

text \<open>
  Against claim C7 as stated: on a connected manager the write of \<^verbatim>\<open>SAVE\<close> raises, the
  send ends in the write error, and the manager is still connected afterwards.
\<close>

theorem write_failure_disconnects_counterexample:
  "is_connected connected_manager \<and>
   send_line (WriteRaises ''timeout'') (ustr ''SAVE'') connected_manager =
     (Inl (RuntimeError (Serial_write_failed ''timeout'')), connected_manager) \<and>
   is_connected (snd (send_line (WriteRaises ''timeout'') (ustr ''SAVE'') connected_manager))"
  by (simp add: connected_manager_eq is_connected_def send_line_def endswith_newline_def
      ustr_def encode_code_point_def)

theorem write_failure_keeps_connection_witness:
  "is_connected connected_manager \<and>
   (\<exists>msg. send_line (WriteRaises ''timeout'') (ustr ''SAVE'') connected_manager =
      (Inl (RuntimeError (Serial_write_failed msg)), connected_manager))"
proof -
  have c: "is_connected connected_manager"
    by (simp add: connected_manager_eq is_connected_def)
  have "WriteRaises ''timeout'' = WriteRaises ''timeout'' \<or>
        WriteRaises ''timeout'' = FlushRaises ''timeout''"
    by simp
  from write_failure_keeps_connection [OF c this, of "ustr ''SAVE''"] c show ?thesis
    by auto
qed

lemma send_line_keeps [simp]:
  "is_connected (snd (send_line io text sm)) = is_connected sm"
  "buf (snd (send_line io text sm)) = buf sm"
  "poll_timer (snd (send_line io text sm)) = poll_timer sm"
  by (simp_all add: send_line_def Let_def split: option.splits write_result.splits)

text \<open>
  Against claim C8 as stated: a manager that holds the partial line \<^verbatim>\<open>12\<close> from an
  earlier connection connects with success, and the buffer still holds \<^verbatim>\<open>12\<close>, after
  \<^verbatim>\<open>SerialManager.connect\<close> and after the whole of \<^verbatim>\<open>toggle_connect\<close>.
\<close>

theorem connect_resets_buffer_counterexample:
  "\<not> is_connected after_partial_line \<and>
   fst (fst (connect (ustr ''COM3'') OpenOk after_partial_line)) = True \<and>
   is_connected (snd (connect (ustr ''COM3'') OpenOk after_partial_line)) \<and>
   buf (snd (connect (ustr ''COM3'') OpenOk after_partial_line)) = [0x31, 0x32] \<and>
   buf (serial (toggle_connect (ustr ''COM3'') OpenOk WriteOk 5
                 ((MainWindow_init 0)\<lparr>serial := after_partial_line\<rparr>))) = [0x31, 0x32]"
  by (simp add: after_partial_line_eq connect_def disconnect_def is_connected_def
      toggle_connect_def strip_def is_space_def ustr_def Let_def send_line_def
      endswith_newline_def encode_code_point_def port_write_def)

text \<open>
  Claim C8, as the code has it. From a window that is not connected, with a port chosen:
  when opening the port raises, \<^verbatim>\<open>connect\<close> returns False after the signals
  DISCONNECTED and "Connection failed", the manager is not connected, and the window is
  otherwise unchanged; when it opens, \<^verbatim>\<open>connect\<close> returns True, the manager is connected
  and the poll timer runs, and \<^verbatim>\<open>toggle_connect\<close> empties both sample sequences and
  restarts the epoch at the clock. The receive buffer is the same before and after, in
  both cases: connecting does not reset it.
\<close>

theorem connect_outcomes:
  assumes "\<not> is_connected (serial w)"
    and "strip port_text \<noteq> []" and "strip port_text \<noteq> ustr ''(no ports found)''"
  shows "connect (strip port_text) (OpenRaises e) (serial w) =
           ((False, [status_changed False DISCONNECTED,
                     status_changed False (Connection_failed e)]),
            (serial w)\<lparr>poll_timer := False, ser := None\<rparr>) \<and>
         toggle_connect port_text (OpenRaises e) io clock w =
           w\<lparr>serial := (serial w)\<lparr>poll_timer := False, ser := None\<rparr>\<rparr> \<and>
         \<not> is_connected (serial (toggle_connect port_text (OpenRaises e) io clock w)) \<and>
         fst (fst (connect (strip port_text) OpenOk (serial w))) = True \<and>
         is_connected (snd (connect (strip port_text) OpenOk (serial w))) \<and>
         poll_timer (snd (connect (strip port_text) OpenOk (serial w))) \<and>
         buf (snd (connect (strip port_text) OpenOk (serial w))) = buf (serial w) \<and>
         is_connected (serial (toggle_connect port_text OpenOk io clock w)) \<and>
         poll_timer (serial (toggle_connect port_text OpenOk io clock w)) \<and>
         buf (serial (toggle_connect port_text OpenOk io clock w)) = buf (serial w) \<and>
         items (x_times (toggle_connect port_text OpenOk io clock w)) = [] \<and>
         items (y_vals (toggle_connect port_text OpenOk io clock w)) = [] \<and>
         t0 (toggle_connect port_text OpenOk io clock w) = clock"
proof -
  let ?p = "strip port_text"
  let ?ok = "(serial w)\<lparr>poll_timer := True, ser := Some \<lparr>port = ?p, baudrate = baud (serial w),
               is_open = True, written = []\<rparr>, last_port := Some ?p\<rparr>"
  have fail: "connect ?p (OpenRaises e) (serial w) =
           ((False, [status_changed False DISCONNECTED,
                     status_changed False (Connection_failed e)]),
            (serial w)\<lparr>poll_timer := False, ser := None\<rparr>)"
    by (simp add: connect_def disconnect_def)
  have ok: "connect ?p OpenOk (serial w) =
           ((True, [status_changed False DISCONNECTED,
                    status_changed True (Connected_msg ?p (baud (serial w)))]), ?ok)"
    by (simp add: connect_def disconnect_def)
  have tf: "toggle_connect port_text (OpenRaises e) io clock w =
           w\<lparr>serial := (serial w)\<lparr>poll_timer := False, ser := None\<rparr>\<rparr>"
    using assms by (simp add: toggle_connect_def Let_def fail)
  have tk: "toggle_connect port_text OpenOk io clock w =
           w\<lparr>t0 := clock, x_times := deque_clear (x_times w),
             y_vals := deque_clear (y_vals w), log_text := [],
             serial := snd (send_line io (ustr ''HELP'') ?ok)\<rparr>"
    using assms by (simp add: toggle_connect_def Let_def ok)
  have c: "is_connected ?ok"
    by (simp add: is_connected_def)
  show ?thesis
    unfolding tf tk fail ok
    by (simp add: c deque_clear_def) (simp add: is_connected_def)
qed

theorem connect_outcomes_witness:
  "\<not> is_connected (serial ((MainWindow_init 0)\<lparr>serial := after_partial_line\<rparr>)) \<and>
   is_connected (serial (toggle_connect (ustr '' COM3'') OpenOk WriteOk 5
                   ((MainWindow_init 0)\<lparr>serial := after_partial_line\<rparr>))) \<and>
   t0 (toggle_connect (ustr '' COM3'') OpenOk WriteOk 5
                   ((MainWindow_init 0)\<lparr>serial := after_partial_line\<rparr>)) = 5 \<and>
   \<not> is_connected (serial (toggle_connect (ustr '' COM3'') (OpenRaises ''busy'') WriteOk 5
                   ((MainWindow_init 0)\<lparr>serial := after_partial_line\<rparr>)))"
proof -
  let ?w = "(MainWindow_init 0)\<lparr>serial := after_partial_line\<rparr>"
  have a: "\<not> is_connected (serial ?w)"
    by (simp add: after_partial_line_eq is_connected_def)
  have b: "strip (ustr '' COM3'') \<noteq> []"
    by (simp add: strip_def is_space_def ustr_def)
  have c: "strip (ustr '' COM3'') \<noteq> ustr ''(no ports found)''"
    by (simp add: strip_def is_space_def ustr_def)
  from connect_outcomes [OF a b c, of "''busy''" WriteOk 5] a show ?thesis
    by blast
qed

section \<open>The framer: reads cut anywhere give the same lines\<close>

lemma poll_loop_line:
  assumes "newline \<notin> set l"
  shows "poll_loop (l @ newline # rest) out =
         poll_loop rest (if strip (utf8_decode_replace l) \<noteq> []
                         then out @ [strip (utf8_decode_replace l)] else out)"
proof -
  have t: "takeWhile (\<lambda>x. x \<noteq> newline) (l @ newline # rest) = l"
    using assms by (subst takeWhile_append2) auto
  have d: "dropWhile (\<lambda>x. x \<noteq> newline) (l @ newline # rest) = newline # rest"
    using assms by (subst dropWhile_append2) auto
  show ?thesis
    by (subst poll_loop.simps) (simp add: t d Let_def)
qed

lemma poll_loop_out:
  "poll_loop b out = (out @ fst (poll_loop b []), snd (poll_loop b []))"
proof (induction b arbitrary: out rule: length_induct)
  case (1 b)
  show ?case
  proof (cases "newline \<in> set b")
    case False
    then show ?thesis by (simp add: poll_loop_no_newline)
  next
    case True
    then obtain l rest where b: "b = l @ newline # rest" and l: "newline \<notin> set l"
      by (auto dest: split_list_first)
    have len: "length rest < length b" using b by simp
    note ih = "1.IH" [rule_format, OF len]
    show ?thesis
      unfolding b poll_loop_line [OF l]
      by (subst ih, subst (2 3) ih) simp
  qed
qed

lemma poll_loop_append:
  "poll_loop (b @ d) [] =
     (fst (poll_loop b []) @ fst (poll_loop (snd (poll_loop b []) @ d) []),
      snd (poll_loop (snd (poll_loop b []) @ d) []))"
proof (induction b rule: length_induct)
  case (1 b)
  show ?case
  proof (cases "newline \<in> set b")
    case False
    then show ?thesis by (simp add: poll_loop_no_newline)
  next
    case True
    then obtain l rest where b: "b = l @ newline # rest" and l: "newline \<notin> set l"
      by (auto dest: split_list_first)
    have len: "length rest < length b" using b by simp
    note ih = "1.IH" [rule_format, OF len]
    have 1: "poll_loop (b @ d) [] =
             poll_loop (rest @ d) (if strip (utf8_decode_replace l) \<noteq> []
                         then [strip (utf8_decode_replace l)] else [])"
      using poll_loop_line [OF l, of "rest @ d" "[]"] by (simp add: b)
    have 2: "poll_loop b [] =
             poll_loop rest (if strip (utf8_decode_replace l) \<noteq> []
                         then [strip (utf8_decode_replace l)] else [])"
      using poll_loop_line [OF l, of rest "[]"] by (simp add: b)
    show ?thesis
      unfolding 1 2
      by (subst poll_loop_out, subst (2 3 4) poll_loop_out) (simp add: ih)
  qed
qed

lemma feed_all_concat: "feed_all chunks b = feed (concat chunks) b"
proof (induction chunks arbitrary: b)
  case Nil
  then show ?case by (simp add: feed_def)
next
  case (Cons chunk chunks)
  show ?case
  proof (cases "chunk = []")
    case True
    then show ?thesis by (simp add: Cons.IH) (simp add: feed_def)
  next
    case False
    show ?thesis
    proof (cases "concat chunks = []")
      case True
      have f0: "feed (concat chunks) x = ([], x)" for x
        unfolding True by (simp add: feed_def)
      have c0: "concat (chunk # chunks) = chunk"
        by (simp only: concat.simps True append_Nil2)
      show ?thesis
        unfolding c0 by (simp add: Cons.IH f0 split: prod.splits)
    next
      case c: False
      have f1: "feed chunk b = poll_loop (b @ chunk) []"
        using False by (simp add: feed_def)
      have f2: "feed (concat chunks) x = poll_loop (x @ concat chunks) []" for x
        by (simp only: feed_def c if_False)
      have f3: "feed (concat (chunk # chunks)) b = poll_loop ((b @ chunk) @ concat chunks) []"
        using False by (simp add: feed_def)
      have "feed_all (chunk # chunks) b =
            (fst (poll_loop (b @ chunk) []) @
               fst (poll_loop (snd (poll_loop (b @ chunk) []) @ concat chunks) []),
             snd (poll_loop (snd (poll_loop (b @ chunk) []) @ concat chunks) []))"
        by (simp add: Cons.IH f1 f2 case_prod_beta)
      also have "\<dots> = poll_loop ((b @ chunk) @ concat chunks) []"
        by (rule poll_loop_append [symmetric])
      finally show ?thesis
        by (simp only: f3)
    qed
  qed
qed

lemma poll_loop_leftover: "snd (poll_loop b out) = after_last_newline b"
proof (induction b arbitrary: out rule: length_induct)
  case (1 b)
  show ?case
  proof (cases "newline \<in> set b")
    case False
    then have "takeWhile (\<lambda>x. x \<noteq> newline) (rev b) = rev b"
      by (auto simp: takeWhile_eq_all_conv)
    then have "after_last_newline b = b"
      by (simp only: after_last_newline_def rev_rev_ident)
    with False show ?thesis
      by (simp add: poll_loop_no_newline)
  next
    case True
    then obtain l rest where b: "b = l @ newline # rest" and l: "newline \<notin> set l"
      by (auto dest: split_list_first)
    have len: "length rest < length b" using b by simp
    have "takeWhile (\<lambda>x. x \<noteq> newline) (rev rest @ newline # rev l) =
          takeWhile (\<lambda>x. x \<noteq> newline) (rev rest)"
    proof (cases "\<forall>x \<in> set (rev rest). x \<noteq> newline")
      case True
      then have c: "takeWhile (\<lambda>x. x \<noteq> newline) (rev rest) = rev rest"
        by (simp add: takeWhile_eq_all_conv)
      have a: "takeWhile (\<lambda>x. x \<noteq> newline) (rev rest @ newline # rev l) =
               rev rest @ takeWhile (\<lambda>x. x \<noteq> newline) (newline # rev l)"
        using True by (subst takeWhile_append2) auto
      have b: "takeWhile (\<lambda>x. x \<noteq> newline) (newline # rev l) = []"
        by simp
      show ?thesis
        unfolding a b c by (rule append_Nil2)
    next
      case False
      then obtain x where "x \<in> set (rev rest)" "\<not> x \<noteq> newline" by blast
      then show ?thesis by (rule takeWhile_append1)
    qed
    then have "after_last_newline b = after_last_newline rest"
      by (simp add: after_last_newline_def b)
    with "1.IH" [rule_format, OF len] show ?thesis
      by (simp add: b poll_loop_line [OF l])
  qed
qed

lemma segments_from_line:
  "newline \<notin> set l \<Longrightarrow>
   segments_from cur (l @ newline # rest) = (rev cur @ l) # segments_from [] rest"
  by (induction l arbitrary: cur) auto

lemma segments_from_no_newline: "newline \<notin> set b \<Longrightarrow> segments_from cur b = []"
  by (induction b arbitrary: cur) auto

lemma poll_loop_lines: "fst (poll_loop b []) = decoded_lines b"
proof (induction b rule: length_induct)
  case (1 b)
  show ?case
  proof (cases "newline \<in> set b")
    case False
    then show ?thesis
      by (simp add: poll_loop_no_newline decoded_lines_def terminated_segments_def
          segments_from_no_newline)
  next
    case True
    then obtain l rest where b: "b = l @ newline # rest" and l: "newline \<notin> set l"
      by (auto dest: split_list_first)
    have len: "length rest < length b" using b by simp
    show ?thesis
      unfolding b poll_loop_line [OF l]
      using "1.IH" [rule_format, OF len]
      by (subst poll_loop_out)
        (simp add: decoded_lines_def terminated_segments_def segments_from_line [OF l])
  qed
qed

lemma dropWhile_rev_dropWhile:
  "xs = [] \<or> \<not> P (hd xs) \<Longrightarrow>
   dropWhile P (rev (dropWhile P (rev xs))) = rev (dropWhile P (rev xs))"
proof (induction xs rule: rev_induct)
  case Nil
  then show ?case by simp
next
  case (snoc y ys)
  show ?case
  proof (cases "P y")
    case True
    with snoc.prems have "ys = [] \<or> \<not> P (hd ys)"
      by (cases ys) auto
    with snoc.IH True show ?thesis by simp
  next
    case False
    with snoc.prems have "dropWhile P (ys @ [y]) = ys @ [y]"
      by (cases ys) auto
    with False show ?thesis by simp
  qed
qed

lemma strip_strip: "strip (strip s) = strip s"
proof -
  let ?t = "dropWhile is_space s"
  have "?t = [] \<or> \<not> is_space (hd ?t)"
    using hd_dropWhile [of is_space s] by blast
  then have "dropWhile is_space (strip s) = strip s"
    unfolding strip_def by (rule dropWhile_rev_dropWhile)
  then show ?thesis
    by (simp add: strip_def)
qed

lemma decoded_lines_stripped: "l \<in> set (decoded_lines b) \<Longrightarrow> l \<noteq> [] \<and> strip l = l"
  by (auto simp: decoded_lines_def strip_strip)


text \<open>
  Claim C2. Whatever the buffer holds and however the incoming bytes are cut into reads,
  feeding the reads one after the other emits the same lines, in the same order, and
  leaves the same buffer as feeding all the bytes in one read. When there are bytes at
  all, the lines are the decoded (UTF-8, invalid sequences replaced), stripped, non-empty
  newline-terminated runs of buffer plus input, and the bytes after the last newline stay
  in the buffer. Every emitted line is non-empty and has no whitespace at either end.
  The instance is the reading \<^verbatim>\<open>Total: 180.5\nfoo\n12\<close> followed by \<^verbatim>\<open>3.4\n\<close>.
\<close>

theorem chunk_boundary_independence:
  "feed_all chunks b = feed (concat chunks) b \<and>
   (concat chunks \<noteq> [] \<longrightarrow>
      feed_all chunks b =
        (decoded_lines (b @ concat chunks), after_last_newline (b @ concat chunks))) \<and>
   (\<forall>l \<in> set (fst (feed_all chunks b)). l \<noteq> [] \<and> strip l = l)"
proof -
  have 1: "feed_all chunks b = feed (concat chunks) b"
    by (rule feed_all_concat)
  have 2: "feed (concat chunks) b =
        (decoded_lines (b @ concat chunks), after_last_newline (b @ concat chunks))"
    if "concat chunks \<noteq> []"
    using that poll_loop_lines [of "b @ concat chunks"]
      poll_loop_leftover [of "b @ concat chunks" "[]"]
    by (simp only: feed_def if_False prod_eq_iff fst_conv snd_conv simp_thms)
  have 3: "l \<noteq> [] \<and> strip l = l" if "l \<in> set (fst (feed (concat chunks) b))" for l
  proof (cases "concat chunks = []")
    case True
    have "feed (concat chunks) b = ([], b)"
      unfolding True by (simp add: feed_def)
    with that show ?thesis by simp
  next
    case False
    with that 2 show ?thesis by (simp add: decoded_lines_stripped)
  qed
  from 1 2 3 show ?thesis by simp
qed

theorem chunk_boundary_independence_witness:
  "feed_all [bytes_of ''Total: 180.5'' @ [newline] @ bytes_of ''foo'' @ [newline] @ bytes_of ''12'',
             bytes_of ''3.4'' @ [newline]] [] =
   ([ustr ''Total: 180.5'', ustr ''foo'', ustr ''123.4''], [])"
proof -
  let ?c1 = "bytes_of ''Total: 180.5'' @ [newline] @ bytes_of ''foo'' @ [newline] @ bytes_of ''12''"
  let ?c2 = "bytes_of ''3.4'' @ [newline]"
  have ne: "concat [?c1, ?c2] \<noteq> []" by simp
  from chunk_boundary_independence [of "[?c1, ?c2]" "[]"] ne
  have "feed_all [?c1, ?c2] [] =
        (decoded_lines ([] @ concat [?c1, ?c2]), after_last_newline ([] @ concat [?c1, ?c2]))"
    by blast
  also have "\<dots> = ([ustr ''Total: 180.5'', ustr ''foo'', ustr ''123.4''], [])"
    by (simp add: decoded_lines_def terminated_segments_def after_last_newline_def bytes_of_def
        newline_def ustr_def strip_def is_space_def)
  finally show ?thesis .
qed

section \<open>The plot buffer: the cap, and timestamps paired with values\<close>

lemma deque_append_simps [simp]:
  "maxlen (deque_append d x) = maxlen d"
  "length (items (deque_append d x)) =
     (if length (items d) < maxlen d then Suc (length (items d)) else length (items d))"
  by (auto simp: deque_append_def Let_def)

lemma append_data_point_lockstep:
  assumes "lockstep w"
  shows "\<exists>w'. append_data_point clock v w = (Inr (), w') \<and> lockstep w' \<and>
           maxlen (x_times w') = maxlen (x_times w) \<and> serial w' = serial w \<and>
           log_text w' = log_text w \<and> seconds_window w' = seconds_window w \<and> t0 w' = t0 w"
proof -
  let ?w2 = "w\<lparr>x_times := deque_append (x_times w) (clock - t0 w),
               y_vals := deque_append (y_vals w) v\<rparr>"
  have len: "length (items (x_times ?w2)) = length (items (y_vals ?w2))"
    using assms by (simp add: lockstep_def)
  have le: "length (items (x_times ?w2)) \<le> maxlen (x_times ?w2)"
    using assms by (simp add: lockstep_def)
  have "append_data_point clock v w = trim_old (clock - t0 w - seconds_window w) ?w2"
    by (simp add: append_data_point_def evict_def Let_def)
  then show ?thesis
    using assms le len
    by (simp add: trim_old_paired [OF len] lockstep_def dropWhile_eq_drop)
qed

lemma on_serial_line_lockstep:
  assumes "lockstep w"
  shows "\<exists>w'. on_serial_line nd clock line w = (Inr (), w') \<and> lockstep w' \<and>
           maxlen (x_times w') = maxlen (x_times w)"
proof -
  have p: "\<exists>w'. plain_number nd clock line w = (Inr (), w') \<and> lockstep w' \<and>
           maxlen (x_times w') = maxlen (x_times w)"
  proof (cases "py_float nd (strip line)")
    case None
    with assms show ?thesis by (simp add: plain_number_def lockstep_def)
  next
    case (Some v)
    with append_data_point_lockstep [OF assms, of clock v] show ?thesis
      by (auto simp: plain_number_def)
  qed
  show ?thesis
  proof (cases "total_match line")
    case None
    with p show ?thesis by (simp add: on_serial_line_def)
  next
    case (Some g)
    show ?thesis
    proof (cases "py_float nd g")
      case None
      with Some p show ?thesis by (simp add: on_serial_line_def)
    next
      case v: (Some v)
      with Some append_data_point_lockstep [OF assms, of clock v] show ?thesis
        by (auto simp: on_serial_line_def)
    qed
  qed
qed

lemma toggle_connect_lockstep:
  assumes "lockstep w"
  shows "lockstep (toggle_connect port_text res io clock w) \<and>
         maxlen (x_times (toggle_connect port_text res io clock w)) = maxlen (x_times w)"
  using assms
  by (auto simp: toggle_connect_def lockstep_def Let_def deque_clear_def split: prod.splits bool.splits)

lemma handle_lockstep:
  assumes "lockstep w"
  shows "fst (handle nd e w) = Inr () \<and> lockstep (snd (handle nd e w)) \<and>
         maxlen (x_times (snd (handle nd e w))) = maxlen (x_times w)"
proof (cases e)
  case (Line clock line)
  with on_serial_line_lockstep [OF assms, of nd clock line] show ?thesis by auto
next
  case (Window seconds)
  with assms show ?thesis by (simp add: set_window_seconds_def lockstep_def)
next
  case (Toggle port_text res io clock)
  with toggle_connect_lockstep [OF assms] show ?thesis by simp
next
  case (Command io command)
  with assms show ?thesis
    by (simp add: send_command_def lockstep_def Let_def split: prod.splits)
qed

lemma run_lockstep:
  "lockstep w \<Longrightarrow> lockstep (run nd evs w) \<and> maxlen (x_times (run nd evs w)) = maxlen (x_times w)"
proof (induction evs arbitrary: w)
  case Nil
  then show ?case by simp
next
  case (Cons e es)
  from handle_lockstep [OF Cons.prems, of nd e]
  have h: "lockstep (snd (handle nd e w))"
    and m: "maxlen (x_times (snd (handle nd e w))) = maxlen (x_times w)"
    by simp_all
  from Cons.IH [OF h] m show ?case by simp
qed

lemma init_lockstep: "lockstep (MainWindow_init c) \<and> maxlen (x_times (MainWindow_init c)) = 1000"
  by (simp add: lockstep_def MainWindow_init_def new_deque_def)


lemma dropWhile_none: "\<forall>x \<in> set xs. \<not> P x \<Longrightarrow> dropWhile P xs = xs"
  by (cases xs) auto

lemma takeWhile_none: "\<forall>x \<in> set xs. \<not> P x \<Longrightarrow> takeWhile P xs = []"
  by (cases xs) auto

lemma append_data_point_full:
  assumes "lockstep w" and "length (items (x_times w)) = maxlen (x_times w)"
    and "0 < maxlen (x_times w)" and "0 \<le> seconds_window w"
    and "\<forall>t \<in> set (items (x_times w)). \<not> t < clock - t0 w - seconds_window w"
  shows "append_data_point clock v w =
           (Inr (), w\<lparr>x_times := (x_times w)\<lparr>items := tl (items (x_times w)) @ [clock - t0 w]\<rparr>,
                      y_vals := (y_vals w)\<lparr>items := tl (items (y_vals w)) @ [v]\<rparr>\<rparr>)"
proof -
  let ?c = "clock - t0 w - seconds_window w"
  let ?xs = "tl (items (x_times w)) @ [clock - t0 w]"
  let ?ys = "tl (items (y_vals w)) @ [v]"
  let ?w2 = "w\<lparr>x_times := (x_times w)\<lparr>items := ?xs\<rparr>, y_vals := (y_vals w)\<lparr>items := ?ys\<rparr>\<rparr>"
  have xne: "items (x_times w) \<noteq> []" and yne: "items (y_vals w) \<noteq> []"
    using assms(1-3) by (auto simp: lockstep_def)
  have dx: "deque_append (x_times w) (clock - t0 w) = (x_times w)\<lparr>items := ?xs\<rparr>"
    using assms(2) xne by (simp add: deque_append_def Let_def)
  have dy: "deque_append (y_vals w) v = (y_vals w)\<lparr>items := ?ys\<rparr>"
    using assms(1,2) yne by (simp add: deque_append_def Let_def lockstep_def)
  have ap: "append_data_point clock v w = trim_old ?c ?w2"
    by (simp add: append_data_point_def evict_def Let_def dx dy)
  have len: "length (items (x_times ?w2)) = length (items (y_vals ?w2))"
    using assms(1) by (simp add: lockstep_def)
  have keep: "\<forall>t \<in> set ?xs. \<not> t < ?c"
    using assms(4,5) xne by (auto dest: list.set_sel(2))
  show ?thesis
    unfolding ap trim_old_paired [OF len]
    by (simp add: dropWhile_none [OF keep] takeWhile_none [OF keep])
qed

text \<open>
  Claim C4. Whatever lines arrive and whatever else happens to the window after it is
  built, each of the two deques holds at most 1000 items; after \<^verbatim>\<open>append_data_point\<close> a
  window in step holds at most its maxlen. The cap does not wait for the retention: on
  a full window all of whose samples are inside the retention, \<^verbatim>\<open>append_data_point\<close>
  drops the oldest sample and adds the new one at the end, and nothing else.
\<close>

theorem count_cap:
  "length (items (x_times (run nd evs (MainWindow_init c)))) \<le> 1000 \<and>
   length (items (y_vals (run nd evs (MainWindow_init c)))) \<le> 1000 \<and>
   (lockstep w \<longrightarrow>
      length (items (x_times (snd (append_data_point clock v w)))) \<le> maxlen (x_times w) \<and>
      length (items (y_vals (snd (append_data_point clock v w)))) \<le> maxlen (y_vals w)) \<and>
   (lockstep w \<and> length (items (x_times w)) = maxlen (x_times w) \<and> 0 < maxlen (x_times w) \<and>
    0 \<le> seconds_window w \<and>
    (\<forall>t \<in> set (items (x_times w)). \<not> t < clock - t0 w - seconds_window w) \<longrightarrow>
      append_data_point clock v w =
        (Inr (), w\<lparr>x_times := (x_times w)\<lparr>items := tl (items (x_times w)) @ [clock - t0 w]\<rparr>,
                   y_vals := (y_vals w)\<lparr>items := tl (items (y_vals w)) @ [v]\<rparr>\<rparr>))"
proof -
  have r: "lockstep (run nd evs (MainWindow_init c))"
    and m: "maxlen (x_times (run nd evs (MainWindow_init c))) = 1000"
    using run_lockstep [of "MainWindow_init c" nd evs] init_lockstep [of c] by simp_all
  from r m have 1: "length (items (x_times (run nd evs (MainWindow_init c)))) \<le> 1000"
    and 2: "length (items (y_vals (run nd evs (MainWindow_init c)))) \<le> 1000"
    by (simp_all add: lockstep_def)
  have 3: "length (items (x_times (snd (append_data_point clock v w)))) \<le> maxlen (x_times w) \<and>
      length (items (y_vals (snd (append_data_point clock v w)))) \<le> maxlen (y_vals w)"
    if "lockstep w"
    using append_data_point_lockstep [OF that, of clock v] that
    by (auto simp: lockstep_def)
  from 1 2 3 append_data_point_full [of w clock v] show ?thesis
    by blast
qed

theorem count_cap_witness:
  "append_data_point 1 (Finite 2) full_window =
     (Inr (), full_window\<lparr>x_times := \<lparr>items = replicate 999 0 @ [1], maxlen = 1000\<rparr>,
                          y_vals := \<lparr>items = replicate 999 (Finite 1) @ [Finite 2], maxlen = 1000\<rparr>\<rparr>)"
proof -
  have a: "lockstep full_window"
    by (simp add: full_window_def lockstep_def)
  have b: "length (items (x_times full_window)) = maxlen (x_times full_window)"
    by (simp add: full_window_def)
  have c: "0 < maxlen (x_times full_window)"
    by (simp add: full_window_def)
  have d: "0 \<le> seconds_window full_window"
    by (simp add: full_window_def)
  have e: "\<forall>t \<in> set (items (x_times full_window)).
             \<not> t < 1 - t0 full_window - seconds_window full_window"
    by (simp add: full_window_def)
  have tx: "tl (items (x_times full_window)) = replicate 999 0"
    by (simp add: full_window_def tl_replicate)
  have ty: "tl (items (y_vals full_window)) = replicate 999 (Finite 1)"
    by (simp add: full_window_def tl_replicate)
  from count_cap [of "\<lambda>_. None" "[]" 0 full_window 1 "Finite 2"] a b c d e
  have "append_data_point 1 (Finite 2) full_window =
        (Inr (), full_window\<lparr>x_times := (x_times full_window)\<lparr>items :=
                                 tl (items (x_times full_window)) @ [1 - t0 full_window]\<rparr>,
                   y_vals := (y_vals full_window)\<lparr>items :=
                                 tl (items (y_vals full_window)) @ [Finite 2]\<rparr>\<rparr>)"
    by blast
  then have "append_data_point 1 (Finite 2) full_window =
     (Inr (), full_window\<lparr>x_times := \<lparr>items = replicate 999 0 @ [1], maxlen = 1000\<rparr>,
                          y_vals := \<lparr>items = replicate 999 (Finite 1) @ [Finite 2], maxlen = 1000\<rparr>\<rparr>)"
    unfolding tx ty by (simp add: full_window_def)
  then show ?thesis .
qed

lemmas line_eval =
  on_serial_line_def plain_number_def total_match_def match_number_def ustr_def strip_def is_space_def
  is_digit_def ascii_lower_def py_float_def to_ascii_def number_with_underscores_def
  ascii_strip_def ascii_space_def strtod_def parse_inf_or_nan_def parse_sign_def
  parse_exponent_def digits_value_def scale10_def MAX_DIGITS_def Let_def binary64_values

text \<open>
  Claim C9. After any sequence of events on a freshly built window, there are as many
  timestamps as values, and the next event raises nothing (no \<^verbatim>\<open>popleft\<close> finds its
  deque empty). Every single event keeps a window in step: appending with both kinds of
  eviction, setting the retention, connecting (which clears both), sending a command.
\<close>

theorem timestamps_and_values_in_lockstep:
  "length (items (x_times (run nd evs (MainWindow_init c)))) =
     length (items (y_vals (run nd evs (MainWindow_init c)))) \<and>
   fst (handle nd e (run nd evs (MainWindow_init c))) = Inr () \<and>
   (lockstep w \<longrightarrow> fst (handle nd e w) = Inr () \<and> lockstep (snd (handle nd e w)))"
proof -
  have r: "lockstep (run nd evs (MainWindow_init c))"
    using run_lockstep [of "MainWindow_init c" nd evs] init_lockstep [of c] by simp
  from r handle_lockstep [OF r, of nd e] handle_lockstep [of w nd e] show ?thesis
    by (auto simp: lockstep_def)
qed

theorem timestamps_and_values_in_lockstep_witness:
  "items (x_times (run (\<lambda>_. None)
      [Line 1 (ustr ''Total: 5''), Line 2 (ustr ''hello''), Line 40 (ustr ''7.5'')]
      (MainWindow_init 0))) = [40] \<and>
   items (y_vals (run (\<lambda>_. None)
      [Line 1 (ustr ''Total: 5''), Line 2 (ustr ''hello''), Line 40 (ustr ''7.5'')]
      (MainWindow_init 0))) = [Finite 7.5] \<and>
   length (items (x_times (run (\<lambda>_. None)
      [Line 1 (ustr ''Total: 5''), Line 2 (ustr ''hello''), Line 40 (ustr ''7.5'')]
      (MainWindow_init 0)))) =
   length (items (y_vals (run (\<lambda>_. None)
      [Line 1 (ustr ''Total: 5''), Line 2 (ustr ''hello''), Line 40 (ustr ''7.5'')]
      (MainWindow_init 0))))"
proof -
  let ?evs = "[Line 1 (ustr ''Total: 5''), Line 2 (ustr ''hello''), Line 40 (ustr ''7.5'')]"
  have v: "run (\<lambda>_. None) ?evs (MainWindow_init 0) =
            (MainWindow_init 0)\<lparr>x_times := \<lparr>items = [40], maxlen = 1000\<rparr>,
                                y_vals := \<lparr>items = [Finite 7.5], maxlen = 1000\<rparr>,
                                log_text := [ustr ''hello'']\<rparr>"
    by (simp add: line_eval append_data_point_def evict_def trim_old_paired deque_append_def
        MainWindow_init_def new_deque_def)
  from timestamps_and_values_in_lockstep [of "\<lambda>_. None" ?evs 0]
  have "length (items (x_times (run (\<lambda>_. None) ?evs (MainWindow_init 0)))) =
        length (items (y_vals (run (\<lambda>_. None) ?evs (MainWindow_init 0))))"
    by blast
  then show ?thesis
    unfolding v by simp
qed

section \<open>Reading a line: the Total pattern and plain numbers\<close>










lemma not_digit_point [simp]: "\<not> is_digit 0x2E" "\<not> is_digit 46"
  by (simp_all add: is_digit_def)









lemma digits_not_special:
  "list_all is_digit ds \<Longrightarrow> 0x2E \<notin> set ds \<and> 0x5F \<notin> set ds \<and> list_all (\<lambda>c. c < 128) ds"
  by (auto simp: list_all_iff is_digit_def)






































end
